theory Spec2Isabelle
  imports Complex_Main "HOL-Library.Sublist" "HOL-Library.AList"
begin

section \<open>Python string primitives used by the ingestion code\<close>

text \<open>
  Text is a \<^typ>\<open>string\<close>: one \<^typ>\<open>char\<close> per code point, for code points below 256.
  \<open>isspace\<close> lists the code points below 256 for which Python's \<^verbatim>\<open>str.isspace\<close> holds;
  they are the characters \<^verbatim>\<open>str.strip()\<close> removes and \<^verbatim>\<open>str.split()\<close> separates on.
\<close>

definition isspace :: "char \<Rightarrow> bool" where
  "isspace c = (c \<in> set [CHR '' '', CHR 0x09, CHR 0x0A, CHR 0x0B, CHR 0x0C, CHR 0x0D,
                          CHR 0x1C, CHR 0x1D, CHR 0x1E, CHR 0x1F, CHR 0x85, CHR 0xA0])"

text \<open>\<^verbatim>\<open>s.strip()\<close>: leading and trailing whitespace removed.\<close>

definition py_strip :: "string \<Rightarrow> string" where
  "py_strip s = rev (dropWhile isspace (rev (dropWhile isspace s)))"

text \<open>\<^verbatim>\<open>s.split()\<close>: the maximal runs of non-whitespace characters, in order.
  \<open>cur\<close> is the run being read, reversed.\<close>

fun words_from :: "string \<Rightarrow> string \<Rightarrow> string list" where
  "words_from cur [] = (if cur = [] then [] else [rev cur])"
| "words_from cur (c # cs) =
     (if isspace c then (if cur = [] then words_from [] cs else rev cur # words_from [] cs)
      else words_from (c # cur) cs)"

definition py_words :: "string \<Rightarrow> string list" where
  "py_words s = words_from [] s"

text \<open>\<^verbatim>\<open>s.split(sep)\<close> for a non-empty separator: the pieces between the occurrences of
  \<open>sep\<close>, found left to right without overlap. Empty pieces are kept. \<open>cur\<close> is the piece
  being read, reversed. (Both call sites pass a two-character literal.)\<close>

function split_from :: "string \<Rightarrow> string \<Rightarrow> string \<Rightarrow> string list" where
  "split_from sep cur [] = [rev cur]"
| "split_from sep cur (c # cs) =
     (if sep \<noteq> [] \<and> take (length sep) (c # cs) = sep
      then rev cur # split_from sep [] (drop (length sep) (c # cs))
      else split_from sep (c # cur) cs)"
  by pat_completeness auto
termination
  by (relation "measure (\<lambda>(sep, cur, s). length s)") auto

definition py_split :: "string \<Rightarrow> string \<Rightarrow> string list" where
  "py_split sep s = split_from sep [] s"

text \<open>\<^verbatim>\<open>sep.join(xs)\<close>.\<close>

fun py_join :: "string \<Rightarrow> string list \<Rightarrow> string" where
  "py_join sep [] = []"
| "py_join sep [x] = x"
| "py_join sep (x # y # ys) = x @ sep @ py_join sep (y # ys)"

text \<open>The slices \<^verbatim>\<open>xs[:n]\<close> and \<^verbatim>\<open>xs[-n:]\<close> (the latter only evaluated for \<open>n > 0\<close>) with
  Python's treatment of a negative or too large bound.\<close>

definition slice_to :: "'a list \<Rightarrow> int \<Rightarrow> 'a list" where
  "slice_to xs n = (if n \<ge> 0 then take (nat n) xs else take (nat (int (length xs) + n)) xs)"

definition slice_last :: "'a list \<Rightarrow> int \<Rightarrow> 'a list" where
  "slice_last xs n = drop (length xs - nat n) xs"

section \<open>chunk\_text (src/ingest.py)\<close>

text \<open>
  The inner loop over the sentences of an oversized paragraph. The state is \<open>chunks\<close>,
  \<open>sentence_chunk\<close> and \<open>sentence_size\<close>; the loop returns the first two (the size is
  not read after the loop).
\<close>

fun sentence_loop ::
  "int \<Rightarrow> int \<Rightarrow> string list \<Rightarrow> string list \<Rightarrow> string list \<Rightarrow> int \<Rightarrow> string list \<times> string list"
where
  "sentence_loop chunk_size overlap_size [] chunks sentence_chunk sentence_size =
     (chunks, sentence_chunk)"
| "sentence_loop chunk_size overlap_size (s # sentences) chunks sentence_chunk sentence_size =
     (let sent = py_strip s in
      if sent = [] then
        sentence_loop chunk_size overlap_size sentences chunks sentence_chunk sentence_size
      else
        let sent_size = int (length (py_words sent)) in
        if sentence_size + sent_size > chunk_size \<and> sentence_chunk \<noteq> [] then
          let overlap_words = slice_to (py_words (last sentence_chunk)) overlap_size in
          sentence_loop chunk_size overlap_size sentences
            (chunks @ [py_join ''. '' sentence_chunk @ ''.''])
            (overlap_words @ [sent])
            (int (length overlap_words) + sent_size)
        else
          sentence_loop chunk_size overlap_size sentences chunks
            (sentence_chunk @ [sent]) (sentence_size + sent_size))"

text \<open>
  The outer loop over the paragraphs. The state is \<open>chunks\<close>, \<open>current_chunk\<close> (a list of
  paragraphs) and \<open>current_size\<close>; the loop returns the first two for the final flush.
\<close>

fun paragraph_loop ::
  "int \<Rightarrow> int \<Rightarrow> string list \<Rightarrow> string list \<Rightarrow> string list \<Rightarrow> int \<Rightarrow> string list \<times> string list"
where
  "paragraph_loop chunk_size overlap_size [] chunks current_chunk current_size =
     (chunks, current_chunk)"
| "paragraph_loop chunk_size overlap_size (p # paragraphs) chunks current_chunk current_size =
     (let para = py_strip p in
      if para = [] then
        paragraph_loop chunk_size overlap_size paragraphs chunks current_chunk current_size
      else
        let para_size = int (length (py_words para)) in
        if para_size > chunk_size then
          let flushed = (if current_chunk \<noteq> [] then chunks @ [py_join '' '' current_chunk]
                         else chunks);
              current_size' = (if current_chunk \<noteq> [] then 0 else current_size);
              (chunks', sentence_chunk) =
                 sentence_loop chunk_size overlap_size (py_split ''. '' para) flushed [] 0;
              chunks'' = (if sentence_chunk \<noteq> []
                          then chunks' @ [py_join ''. '' sentence_chunk @ ''.''] else chunks')
          in paragraph_loop chunk_size overlap_size paragraphs chunks'' [] current_size'
        else if current_size + para_size > chunk_size \<and> current_chunk \<noteq> [] then
          let kept = (if overlap_size > 0 then slice_last current_chunk overlap_size else []) in
          paragraph_loop chunk_size overlap_size paragraphs
            (chunks @ [py_join '' '' current_chunk])
            (kept @ [para])
            (int (length kept) + para_size)
        else
          paragraph_loop chunk_size overlap_size paragraphs chunks
            (current_chunk @ [para]) (current_size + para_size))"

text \<open>
  \<open>chunk_text_from\<close> is the body of \<^verbatim>\<open>chunk_text\<close> after \<^verbatim>\<open>overlap_size\<close> has been
  computed: split on blank lines, run the loop, flush the final chunk.
\<close>

definition chunk_text_from :: "string \<Rightarrow> int \<Rightarrow> int \<Rightarrow> string list" where
  "chunk_text_from text chunk_size overlap_size =
     (let (chunks, current_chunk) =
            paragraph_loop chunk_size overlap_size (py_split ''\<newline>\<newline>'' text) [] [] 0
      in if current_chunk \<noteq> [] then chunks @ [py_join '' '' current_chunk] else chunks)"

text \<open>
  \<^verbatim>\<open>int(x)\<close> truncates towards zero. The ratio is a rational here, so the product
  \<^verbatim>\<open>chunk_size * overlap_ratio\<close> is exact, where Python rounds it to a double first; the
  properties below are stated on \<open>chunk_text_from\<close> for every \<open>overlap_size\<close> where they
  do not depend on its value.
\<close>

definition py_int :: "rat \<Rightarrow> int" where
  "py_int x = (if x \<ge> 0 then \<lfloor>x\<rfloor> else \<lceil>x\<rceil>)"

definition chunk_text :: "string \<Rightarrow> int \<Rightarrow> rat \<Rightarrow> string list" where
  "chunk_text text chunk_size overlap_ratio =
     chunk_text_from text chunk_size (py_int (of_int chunk_size * overlap_ratio))"

section \<open>Paths, decimal numerals and lower-casing\<close>

text \<open>\<^verbatim>\<open>str(n)\<close> for an integer: its decimal numeral.\<close>

fun str_nat :: "nat \<Rightarrow> string" where
  "str_nat n = (if n < 10 then [''0123456789'' ! n]
                else str_nat (n div 10) @ [''0123456789'' ! (n mod 10)])"

definition py_str :: "int \<Rightarrow> string" where
  "py_str i = (if i < 0 then ''-'' @ str_nat (nat (- i)) else str_nat (nat i))"

text \<open>\<^verbatim>\<open>s.lower()\<close> on code points below 256: the ASCII capitals and the Latin-1
  capitals (0xC0 to 0xDE without the multiplication sign 0xD7) move up by 32.\<close>

definition lower_char :: "char \<Rightarrow> char" where
  "lower_char c =
     (let n = (of_char c :: nat) in
      if (65 \<le> n \<and> n \<le> 90) \<or> (192 \<le> n \<and> n \<le> 222 \<and> n \<noteq> 215) then char_of (n + 32) else c)"

definition py_lower :: "string \<Rightarrow> string" where
  "py_lower s = map lower_char s"

text \<open>
  \<^verbatim>\<open>pathlib.Path\<close> on POSIX paths. \<open>path_name\<close> is \<^verbatim>\<open>Path(p).name\<close>: the last component,
  where empty components and \<^verbatim>\<open>.\<close> are dropped. \<open>rfind\<close> is \<^verbatim>\<open>str.rfind\<close> for one character;
  \<open>path_suffix\<close> and \<open>path_stem\<close> cut the name at its last dot unless that dot is the first
  or the last character of the name.
\<close>

definition path_name :: "string \<Rightarrow> string" where
  "path_name p =
     (let parts = filter (\<lambda>c. c \<noteq> [] \<and> c \<noteq> ''.'') (py_split ''/'' p)
      in if parts = [] then [] else last parts)"

definition rfind :: "char \<Rightarrow> string \<Rightarrow> int" where
  "rfind c s = (if c \<in> set s
                then int (length s) - 1 - int (length (takeWhile (\<lambda>x. x \<noteq> c) (rev s)))
                else - 1)"

definition path_suffix :: "string \<Rightarrow> string" where
  "path_suffix p =
     (let name = path_name p; i = rfind CHR ''.'' name
      in if 0 < i \<and> i < int (length name) - 1 then drop (nat i) name else [])"

definition path_stem :: "string \<Rightarrow> string" where
  "path_stem p =
     (let name = path_name p; i = rfind CHR ''.'' name
      in if 0 < i \<and> i < int (length name) - 1 then take (nat i) name else name)"

section \<open>Errors and the collaborators of the ingestion code\<close>

text \<open>
  The exceptions of the code, as values. \<open>InvalidArgument\<close> is the error kind the
  specification names for a malformed call; no function of the source raises it.
\<close>

datatype error =
    ImportError string
  | ValueError string
  | OSError string
  | IndexError
  | HTTPError string
  | ConnectionError string
  | EmbeddingFailure string
  | TypeError string
  | InvalidArgument

text \<open>
  What the code reads from outside: the four format loaders (each stands for the call
  \<^verbatim>\<open>load_x(str(file_path))\<close> and returns the text or the exception raised), the digest
  \<^verbatim>\<open>hashlib.md5(text.encode()).hexdigest()\<close> as a function of the text, and the paths
  \<^verbatim>\<open>Path(directory).rglob('*')\<close> yields, in the order it yields them.
\<close>

record env =
  load_pdf :: "string \<Rightarrow> error + string"
  load_markdown :: "string \<Rightarrow> error + string"
  load_html :: "string \<Rightarrow> error + string"
  load_text :: "string \<Rightarrow> error + string"
  md5_hexdigest :: "string \<Rightarrow> string"
  rglob :: "string \<Rightarrow> string list"

section \<open>load\_document, generate\_chunk\_id, ingest\_document, ingest\_directory\<close>

definition load_document :: "env \<Rightarrow> string \<Rightarrow> error + (string \<times> string)" where
  "load_document e file_path =
     (let suffix = py_lower (path_suffix file_path) in
      if suffix = ''.pdf'' then
        (case load_pdf e file_path of Inl x \<Rightarrow> Inl x | Inr t \<Rightarrow> Inr (t, ''paper''))
      else if suffix \<in> set [''.md'', ''.markdown''] then
        (case load_markdown e file_path of Inl x \<Rightarrow> Inl x | Inr t \<Rightarrow> Inr (t, ''framework''))
      else if suffix = ''.html'' then
        (case load_html e file_path of Inl x \<Rightarrow> Inl x | Inr t \<Rightarrow> Inr (t, ''framework''))
      else if suffix = ''.txt'' then
        (case load_text e file_path of Inl x \<Rightarrow> Inl x | Inr t \<Rightarrow> Inr (t, ''guide''))
      else Inl (ValueError (''Unsupported file format: '' @ suffix)))"

definition generate_chunk_id :: "env \<Rightarrow> string \<Rightarrow> int \<Rightarrow> string \<Rightarrow> string" where
  "generate_chunk_id e source chunk_index txt =
     (let content_hash = take 8 (md5_hexdigest e txt);
          source_name = path_stem source
      in source_name @ ''_'' @ py_str chunk_index @ ''_'' @ content_hash)"

text \<open>The dictionaries the ingestion code returns: \<^verbatim>\<open>{'text': .., 'metadata': .., 'id': ..}\<close>,
  the metadata dictionary as its items in insertion order.\<close>

record chunk_record =
  rec_text :: string
  rec_metadata :: "(string \<times> string) list"
  rec_id :: string

definition make_record :: "env \<Rightarrow> string \<Rightarrow> string \<Rightarrow> nat \<times> string \<Rightarrow> chunk_record" where
  "make_record e source doc_type ic =
     (let idx = fst ic; chunk = snd ic;
          chunk_id = generate_chunk_id e source (int idx) chunk;
          metadata = [(''source'', source), (''doc_type'', doc_type),
                      (''chunk_index'', py_str (int idx)), (''chunk_id'', chunk_id)]
      in \<lparr>rec_text = chunk, rec_metadata = metadata, rec_id = chunk_id\<rparr>)"

definition ingest_document :: "env \<Rightarrow> string \<Rightarrow> int \<Rightarrow> rat \<Rightarrow> error + chunk_record list" where
  "ingest_document e file_path chunk_size overlap_ratio =
     (case load_document e file_path of
        Inl x \<Rightarrow> Inl x
      | Inr (txt, doc_type) \<Rightarrow>
          let source = path_name file_path;
              chunks = chunk_text txt chunk_size overlap_ratio
          in Inr (map (make_record e source doc_type) (enumerate 0 chunks)))"

text \<open>The lines \<^verbatim>\<open>ingest_directory\<close> prints: one per file it tried.\<close>

datatype report = Ingested string nat | Failed string error

fun directory_loop ::
  "env \<Rightarrow> int \<Rightarrow> rat \<Rightarrow> string list \<Rightarrow> string list \<Rightarrow> chunk_record list \<Rightarrow> report list
     \<Rightarrow> chunk_record list \<times> report list"
where
  "directory_loop e chunk_size overlap_ratio extensions [] all_chunks printed =
     (all_chunks, printed)"
| "directory_loop e chunk_size overlap_ratio extensions (file_path # files) all_chunks printed =
     (if py_lower (path_suffix file_path) \<notin> set extensions then
        directory_loop e chunk_size overlap_ratio extensions files all_chunks printed
      else
        (case ingest_document e file_path chunk_size overlap_ratio of
           Inr chunks \<Rightarrow>
             directory_loop e chunk_size overlap_ratio extensions files (all_chunks @ chunks)
               (printed @ [Ingested (path_name file_path) (length chunks)])
         | Inl x \<Rightarrow>
             directory_loop e chunk_size overlap_ratio extensions files all_chunks
               (printed @ [Failed (path_name file_path) x])))"

text \<open>The parameter \<^verbatim>\<open>extensions\<close> with its default for \<^verbatim>\<open>None\<close>.\<close>

definition extensions_or_default :: "string list option \<Rightarrow> string list" where
  "extensions_or_default extensions =
     (case extensions of
        None \<Rightarrow> [''.pdf'', ''.md'', ''.markdown'', ''.html'', ''.txt'']
      | Some xs \<Rightarrow> xs)"

definition ingest_directory ::
  "env \<Rightarrow> string \<Rightarrow> int \<Rightarrow> rat \<Rightarrow> string list option \<Rightarrow> chunk_record list \<times> report list"
where
  "ingest_directory e directory chunk_size overlap_ratio extensions =
     directory_loop e chunk_size overlap_ratio (extensions_or_default extensions)
       (rglob e directory) [] []"

section \<open>ChromaStore (src/store.py)\<close>

text \<open>
  The collection is the vector index behind the store, a collaborator of the code. It is
  modelled by its contract: a list of entries, one per id, each holding the document, its
  embedding and its metadata. \<open>collection_upsert\<close> overwrites the entry of an id in place
  or appends a new one; \<open>collection_get_where\<close> is \<^verbatim>\<open>get(where={key: {"$eq": v}},
  include=[])["ids"]\<close>; \<open>collection_delete\<close> is \<^verbatim>\<open>delete(ids=..)\<close>; \<open>collection_count\<close> is
  \<^verbatim>\<open>count()\<close>. The function \<^verbatim>\<open>embed\<close> of src/embed.py is the parameter \<open>embed_texts\<close> of the
  operations that call it: it returns the vectors or the exception raised.
\<close>

type_synonym 'v entry = "string \<times> 'v \<times> (string \<times> string) list"

type_synonym 'v collection = "(string \<times> 'v entry) list"

definition collection_upsert ::
  "'v collection \<Rightarrow> string list \<Rightarrow> string list \<Rightarrow> 'v list \<Rightarrow> (string \<times> string) list list
     \<Rightarrow> error + 'v collection"
where
  "collection_upsert coll ids documents embeddings metadatas =
     (if length documents = length ids \<and> length embeddings = length ids
         \<and> length metadatas = length ids
      then Inr (fold (\<lambda>(i, entry) c. AList.update i entry c)
                  (zip ids (zip documents (zip embeddings metadatas))) coll)
      else Inl (ValueError ''Unequal lengths''))"

definition collection_get_where :: "'v collection \<Rightarrow> string \<Rightarrow> string \<Rightarrow> string list" where
  "collection_get_where coll key v =
     map fst (filter (\<lambda>(i, document, embedding, metadata). map_of metadata key = Some v) coll)"

definition collection_delete :: "'v collection \<Rightarrow> string list \<Rightarrow> 'v collection" where
  "collection_delete coll ids = filter (\<lambda>(i, entry). i \<notin> set ids) coll"

definition collection_count :: "'v collection \<Rightarrow> nat" where
  "collection_count coll = length coll"

definition upsert_chunks ::
  "(string list \<Rightarrow> error + 'v list) \<Rightarrow> 'v collection \<Rightarrow> chunk_record list \<Rightarrow> error + 'v collection"
where
  "upsert_chunks embed_texts coll chunks =
     (if chunks = [] then Inr coll
      else
        let texts = map rec_text chunks in
        case embed_texts texts of
          Inl x \<Rightarrow> Inl x
        | Inr embeddings \<Rightarrow>
            let ids = map rec_id chunks;
                metadatas = map rec_metadata chunks;
                documents = texts
            in collection_upsert coll ids documents embeddings metadatas)"

definition delete_by_source :: "'v collection \<Rightarrow> string \<Rightarrow> 'v collection" where
  "delete_by_source coll source =
     (let ids = collection_get_where coll ''source'' source
      in if ids \<noteq> [] then collection_delete coll ids else coll)"

text \<open>
  The collection's \<^verbatim>\<open>query\<close>, by its contract: it rejects a number of results that is
  not positive with a \<^verbatim>\<open>TypeError\<close>; otherwise it is the nearest-neighbour search, the
  parameter \<open>search\<close>.
\<close>

definition collection_query ::
  "('v collection \<Rightarrow> 'v \<Rightarrow> int \<Rightarrow> error + 'r) \<Rightarrow> 'v collection \<Rightarrow> 'v \<Rightarrow> int \<Rightarrow> error + 'r"
where
  "collection_query search coll query_embedding n_results =
     (if n_results \<le> 0
      then Inl (TypeError (''Number of requested results '' @ py_str n_results
                             @ '', cannot be negative, or zero.''))
      else search coll query_embedding n_results)"

text \<open>
  \<^verbatim>\<open>ChromaStore.query\<close>. Besides its result, \<open>query\<close> returns the calls it made to its two
  collaborators, in order.
\<close>

datatype 'v call = EmbedCall "string list" | QueryCall 'v int

definition query ::
  "(string list \<Rightarrow> error + 'v list) \<Rightarrow> ('v collection \<Rightarrow> 'v \<Rightarrow> int \<Rightarrow> error + 'r) \<Rightarrow> 'v collection
     \<Rightarrow> string \<Rightarrow> int \<Rightarrow> (error + 'r) \<times> 'v call list"
where
  "query embed_texts search coll query_text top_k =
     (case embed_texts [query_text] of
        Inl x \<Rightarrow> (Inl x, [EmbedCall [query_text]])
      | Inr [] \<Rightarrow> (Inl IndexError, [EmbedCall [query_text]])
      | Inr (query_embedding # _) \<Rightarrow>
          (collection_query search coll query_embedding top_k,
           [EmbedCall [query_text], QueryCall query_embedding top_k]))"

section \<open>\_request\_with\_retry (src/semantic\_scholar.py)\<close>

definition MAX_RETRIES :: int where
  "MAX_RETRIES = 3"

definition RETRY_DELAY :: rat where
  "RETRY_DELAY = 2"

text \<open>
  What \<^verbatim>\<open>requests.get\<close> does on a call: it returns a response with a status code, or it
  raises (a connection error, a timeout; never an \<^verbatim>\<open>HTTPError\<close>, which only
  \<^verbatim>\<open>raise_for_status\<close> raises). The server is a function from the number of the attempt
  to what the call of that attempt does.
\<close>

datatype reply = Response nat | Raises error

definition raise_for_status :: "nat \<Rightarrow> error option" where
  "raise_for_status status_code =
     (if 400 \<le> status_code \<and> status_code < 600 then Some (HTTPError (str_nat status_code))
      else None)"

text \<open>
  The loop \<^verbatim>\<open>for attempt in range(max_retries)\<close> over the attempts still to make. It
  returns the response's status code or the exception raised, and the list of the
  \<^verbatim>\<open>time.sleep\<close> durations, in order.
\<close>

fun retry_loop ::
  "(nat \<Rightarrow> reply) \<Rightarrow> int \<Rightarrow> nat list \<Rightarrow> error option \<Rightarrow> rat list \<Rightarrow> (error + nat) \<times> rat list"
where
  "retry_loop get max_retries [] last_error slept =
     (case last_error of
        Some x \<Rightarrow> (Inl x, slept)
      | None \<Rightarrow> (Inl (HTTPError ''Max retries exceeded''), slept))"
| "retry_loop get max_retries (attempt # attempts) last_error slept =
     (case get attempt of
        Raises x \<Rightarrow> (Inl x, slept)
      | Response status_code \<Rightarrow>
          if status_code = 429 then
            let wait_time = RETRY_DELAY * (of_nat attempt + 1)
            in retry_loop get max_retries attempts last_error (slept @ [wait_time])
          else
            (case raise_for_status status_code of
               Some x \<Rightarrow> (Inl x, slept)
             | None \<Rightarrow> (Inr status_code, slept)))"

definition request_with_retry :: "(nat \<Rightarrow> reply) \<Rightarrow> int \<Rightarrow> (error + nat) \<times> rat list" where
  "request_with_retry get max_retries =
     retry_loop get max_retries [0 ..< nat max_retries] None []"

text \<open>A list of delays backs off exponentially when each delay is the one before it times
  one fixed factor greater than 1.\<close>

fun exponential :: "rat list \<Rightarrow> bool" where
  "exponential (a # b # c # ds) = (a < b \<and> b * b = a * c \<and> exponential (b # c # ds))"
| "exponential [a, b] = (a < b)"
| "exponential ds = True"

fun increasing :: "rat list \<Rightarrow> bool" where
  "increasing (a # b # ds) = (a < b \<and> increasing (b # ds))"
| "increasing ds = True"

section \<open>Reference definitions and a sample environment\<close>

text \<open>The chunk identifier in the words of the specification (section 4.2): the stem of
  the source name, an underscore, the chunk index, an underscore, and the first 8
  characters of the hexadecimal content hash of the text.\<close>

definition make_id_spec :: "(string \<Rightarrow> string) \<Rightarrow> string \<Rightarrow> int \<Rightarrow> string \<Rightarrow> string" where
  "make_id_spec content_hash source_name chunk_index txt =
     path_stem source_name @ ''_'' @ py_str chunk_index @ ''_'' @ take 8 (content_hash txt)"

text \<open>The overlap of two consecutive chunks in words: the greatest \<open>k\<close> for which the last
  \<open>k\<close> words of the first chunk are the first \<open>k\<close> words of the second.\<close>

definition shared_words :: "string \<Rightarrow> string \<Rightarrow> nat" where
  "shared_words a b =
     (let xs = py_words a; ys = py_words b
      in fold max (filter (\<lambda>k. drop (length xs - k) xs = take k ys)
                     [0 ..< Suc (min (length xs) (length ys))]) 0)"







text \<open>What one file contributes to a directory ingestion: its records (none when its
  ingestion raises) and the line printed for it.\<close>

definition chunks_of :: "env \<Rightarrow> int \<Rightarrow> rat \<Rightarrow> string \<Rightarrow> chunk_record list" where
  "chunks_of e chunk_size overlap_ratio file_path =
     (case ingest_document e file_path chunk_size overlap_ratio of
        Inr chunks \<Rightarrow> chunks
      | Inl x \<Rightarrow> [])"

definition report_of :: "env \<Rightarrow> int \<Rightarrow> rat \<Rightarrow> string \<Rightarrow> report" where
  "report_of e chunk_size overlap_ratio file_path =
     (case ingest_document e file_path chunk_size overlap_ratio of
        Inr chunks \<Rightarrow> Ingested (path_name file_path) (length chunks)
      | Inl x \<Rightarrow> Failed (path_name file_path) x)"

text \<open>A small corpus: a text file of three paragraphs, a PDF whose extraction raises, a
  file without extension, and a Markdown file. The digest is a fixed string.\<close>

definition sample_env :: env where
  "sample_env =
     \<lparr>load_pdf = (\<lambda>p. Inl (OSError ''EOF marker not found'')),
      load_markdown = (\<lambda>p. Inr ''Dense retrieval. Sparse retrieval.''),
      load_html = (\<lambda>p. Inr ''Chunking''),
      load_text = (\<lambda>p. Inr ''a b c d e\<newline>\<newline>f g h i j\<newline>\<newline>k l m''),
      md5_hexdigest = (\<lambda>t. ''5eb63bbbe01eeed093cb22bb8f5acdc3''),
      rglob = (\<lambda>d. [''corpus/a.txt'', ''corpus/b.pdf'', ''corpus/notes'', ''corpus/c.MD''])\<rparr>"

definition sample_records :: "chunk_record list" where
  "sample_records =
     [\<lparr>rec_text = ''a b c d e f g h i j'',
       rec_metadata = [(''source'', ''a.txt''), (''doc_type'', ''guide''),
                       (''chunk_index'', ''0''), (''chunk_id'', ''a_0_5eb63bbb'')],
       rec_id = ''a_0_5eb63bbb''\<rparr>,
      \<lparr>rec_text = ''f g h i j k l m'',
       rec_metadata = [(''source'', ''a.txt''), (''doc_type'', ''guide''),
                       (''chunk_index'', ''1''), (''chunk_id'', ''a_1_5eb63bbb'')],
       rec_id = ''a_1_5eb63bbb''\<rparr>]"

text \<open>An embedding stand-in for the examples: one number per text. The search stand-in
  returns the first ids of the collection.\<close>

definition sample_embed :: "string list \<Rightarrow> error + nat list" where
  "sample_embed texts = Inr (map length texts)"

definition sample_search :: "nat collection \<Rightarrow> nat \<Rightarrow> int \<Rightarrow> error + string list" where
  "sample_search coll v k = Inr (take (nat k) (map fst coll))"

definition sample_collection :: "nat collection" where
  "sample_collection =
     [(''paper_0_5eb63bbb'', ''alpha'', 5, [(''source'', ''paper.pdf''), (''doc_type'', ''paper'')]),
      (''other_0_5eb63bbb'', ''beta'', 4, [(''source'', ''other.pdf''), (''doc_type'', ''paper'')]),
      (''paper_1_5eb63bbb'', ''gamma'', 5, [(''source'', ''paper.pdf''), (''doc_type'', ''paper'')])]"

section \<open>The chunker on a three-paragraph text\<close>

lemma sample_ingest:
  "ingest_document sample_env ''corpus/a.txt'' 10 (1 / 10) = Inr sample_records"
  by code_simp

text \<open>
  C1. The paragraph path of \<open>chunk_text\<close> does not seed the accumulator with the trailing
  \<open>overlap_size\<close> words of the emitted chunk but with the trailing \<open>overlap_size\<close>
  paragraphs of the accumulator. With a target of 10 words and a ratio of one tenth
  (\<open>overlap_size = 1\<close>), the paragraphs of 5, 5 and 3 words give two chunks that share
  five words, not at most one.
\<close>

theorem chunk_text_paragraph_overlap_in_paragraphs:
  "chunk_text ''a b c d e\<newline>\<newline>f g h i j\<newline>\<newline>k l m'' 10 (1 / 10)
     = [''a b c d e f g h i j'', ''f g h i j k l m'']
   \<and> py_int (of_int 10 * (1 / 10)) = 1
   \<and> shared_words ''a b c d e f g h i j'' ''f g h i j k l m'' = 5"
  by code_simp

section \<open>Splitting and stripping\<close>

lemma split_from_match:
  "sep \<noteq> [] \<and> take (length sep) (c # cs) = sep \<Longrightarrow>
   split_from sep cur (c # cs) = rev cur # split_from sep [] (drop (length sep) (c # cs))"
  by simp

lemma split_from_skip:
  "\<not> (sep \<noteq> [] \<and> take (length sep) (c # cs) = sep) \<Longrightarrow>
   split_from sep cur (c # cs) = split_from sep (c # cur) cs"
  by (simp only: split_from.simps if_False)

lemma split_from_nonempty: "split_from sep cur s \<noteq> []"
  by (induction sep cur s rule: split_from.induct) auto

declare split_from.simps(2) [simp del]

lemma split_from_sublist:
  "p \<in> set (split_from sep cur s) \<Longrightarrow> sublist p (rev cur @ s)"
proof (induction sep cur s arbitrary: p rule: split_from.induct)
  case (1 sep cur)
  then show ?case by simp
next
  case (2 sep cur c cs)
  show ?case
  proof (cases "sep \<noteq> [] \<and> take (length sep) (c # cs) = sep")
    case True
    from "2.prems" have "p = rev cur \<or> p \<in> set (split_from sep [] (drop (length sep) (c # cs)))"
      unfolding split_from_match[OF True] by auto
    then show ?thesis
    proof
      assume "p = rev cur"
      then show ?thesis by simp
    next
      assume "p \<in> set (split_from sep [] (drop (length sep) (c # cs)))"
      from "2.IH"(1)[OF True this] have "sublist p (drop (length sep) (c # cs))" by simp
      then have "sublist p (c # cs)"
        using sublist_drop sublist_order.order_trans by blast
      then show ?thesis
        using sublist_order.order_trans suffix_imp_sublist suffix_appendI by blast
    qed
  next
    case False
    from "2.prems" have "p \<in> set (split_from sep (c # cur) cs)"
      unfolding split_from_skip[OF False] .
    from "2.IH"(2)[OF False this] show ?thesis by simp
  qed
qed

lemma split_from_covers:
  "x \<in> set cur \<union> set s \<Longrightarrow> x \<notin> set sep \<Longrightarrow> \<exists>p \<in> set (split_from sep cur s). x \<in> set p"
proof (induction sep cur s rule: split_from.induct)
  case (1 sep cur)
  then show ?case by simp
next
  case (2 sep cur c cs)
  show ?case
  proof (cases "sep \<noteq> [] \<and> take (length sep) (c # cs) = sep")
    case True
    have "set (c # cs) = set (take (length sep) (c # cs)) \<union> set (drop (length sep) (c # cs))"
      by (metis append_take_drop_id set_append)
    with True "2.prems" have "x \<in> set cur \<or> x \<in> set (drop (length sep) (c # cs))"
      by auto
    then show ?thesis
    proof
      assume "x \<in> set cur"
      then show ?thesis unfolding split_from_match[OF True] by auto
    next
      assume "x \<in> set (drop (length sep) (c # cs))"
      then have "x \<in> set [] \<union> set (drop (length sep) (c # cs))" by simp
      from "2.IH"(1)[OF True this "2.prems"(2)] show ?thesis
        unfolding split_from_match[OF True] by auto
    qed
  next
    case False
    from "2.prems" have "x \<in> set (c # cur) \<union> set cs" by auto
    from "2.IH"(2)[OF False this "2.prems"(2)] show ?thesis
      unfolding split_from_skip[OF False] by auto
  qed
qed

lemma split_from_last:
  "s \<noteq> [] \<Longrightarrow> sep \<noteq> [] \<Longrightarrow> last s \<noteq> last sep \<Longrightarrow>
   last (split_from sep cur s) \<noteq> [] \<and> last (last (split_from sep cur s)) = last s"
proof (induction sep cur s rule: split_from.induct)
  case (1 sep cur)
  then show ?case by simp
next
  case (2 sep cur c cs)
  show ?case
  proof (cases "sep \<noteq> [] \<and> take (length sep) (c # cs) = sep")
    case True
    let ?rest = "drop (length sep) (c # cs)"
    have "?rest \<noteq> []"
    proof
      assume "?rest = []"
      then have "c # cs = sep" using True by (metis append_Nil2 append_take_drop_id)
      with "2.prems" show False by simp
    qed
    then have l: "last ?rest = last (c # cs)" by (simp add: last_drop)
    from "2.IH"(1)[OF True \<open>?rest \<noteq> []\<close> "2.prems"(2)] l "2.prems"(3)
    have "last (split_from sep [] ?rest) \<noteq> [] \<and> last (last (split_from sep [] ?rest)) = last (c # cs)"
      by simp
    then show ?thesis
      unfolding split_from_match[OF True] using split_from_nonempty[of sep "[]" ?rest] by simp
  next
    case False
    show ?thesis
    proof (cases cs)
      case Nil
      show ?thesis using split_from_skip[OF False, of cur] Nil by simp
    next
      case (Cons d ds)
      with "2.prems" have "cs \<noteq> []" "last cs \<noteq> last sep" by auto
      from "2.IH"(2)[OF False this(1) "2.prems"(2) this(2)] show ?thesis
        unfolding split_from_skip[OF False] using Cons by simp
    qed
  qed
qed

lemma all_space_dropWhile:
  "(\<forall>x \<in> set (dropWhile P s). P x) \<longleftrightarrow> (\<forall>x \<in> set s. P x)"
proof
  assume a: "\<forall>x \<in> set (dropWhile P s). P x"
  have "dropWhile P s = []"
  proof (rule ccontr)
    assume n: "dropWhile P s \<noteq> []"
    then have "\<not> P (hd (dropWhile P s))" by (rule hd_dropWhile)
    moreover from n have "hd (dropWhile P s) \<in> set (dropWhile P s)" by simp
    ultimately show False using a by blast
  qed
  then show "\<forall>x \<in> set s. P x" by (simp add: dropWhile_eq_Nil_conv)
next
  assume "\<forall>x \<in> set s. P x"
  then show "\<forall>x \<in> set (dropWhile P s). P x" by (meson set_dropWhileD)
qed

lemma py_strip_Nil_iff: "py_strip s = [] \<longleftrightarrow> (\<forall>c \<in> set s. isspace c)"
proof -
  have "py_strip s = [] \<longleftrightarrow> (\<forall>x \<in> set (rev (dropWhile isspace s)). isspace x)"
    unfolding py_strip_def by (simp only: rev_is_Nil_conv dropWhile_eq_Nil_conv)
  also have "\<dots> \<longleftrightarrow> (\<forall>x \<in> set (dropWhile isspace s). isspace x)" by simp
  also have "\<dots> \<longleftrightarrow> (\<forall>c \<in> set s. isspace c)" by (rule all_space_dropWhile)
  finally show ?thesis .
qed

lemma py_strip_last: "py_strip s \<noteq> [] \<Longrightarrow> \<not> isspace (last (py_strip s))"
  unfolding py_strip_def
  by (metis hd_dropWhile last_rev rev_is_Nil_conv)


lemma sentence_in_stripped_paragraph:
  assumes "para \<noteq> []" and "\<not> isspace (last para)"
  shows "\<exists>s \<in> set (py_split ''. '' para). py_strip s \<noteq> []"
proof -
  have "isspace (last ''. '')" by (simp add: isspace_def)
  with assms have ne: "last para \<noteq> last ''. ''" by auto
  from split_from_last[OF assms(1) _ ne, of "[]"]
  have l: "last (split_from ''. '' [] para) \<noteq> []"
    and ll: "last (last (split_from ''. '' [] para)) = last para" by simp_all
  let ?s = "last (split_from ''. '' [] para)"
  have "?s \<in> set (py_split ''. '' para)"
    unfolding py_split_def using split_from_nonempty by simp
  moreover have "last ?s \<in> set ?s" using l by simp
  with ll assms(2) have "py_strip ?s \<noteq> []" unfolding py_strip_Nil_iff by auto
  ultimately show ?thesis by blast
qed

section \<open>The loops of the chunker, step by step\<close>

lemma paragraph_loop_blank:
  "py_strip p = [] \<Longrightarrow>
   paragraph_loop chunk_size overlap_size (p # paragraphs) chunks current_chunk current_size
     = paragraph_loop chunk_size overlap_size paragraphs chunks current_chunk current_size"
  by simp

lemma paragraph_loop_big:
  assumes "py_strip p \<noteq> []" and "int (length (py_words (py_strip p))) > chunk_size"
  shows "paragraph_loop chunk_size overlap_size (p # paragraphs) chunks current_chunk current_size
     = (let r = sentence_loop chunk_size overlap_size (py_split ''. '' (py_strip p))
                  (if current_chunk \<noteq> [] then chunks @ [py_join '' '' current_chunk] else chunks)
                  [] 0
        in paragraph_loop chunk_size overlap_size paragraphs
             (if snd r \<noteq> [] then fst r @ [py_join ''. '' (snd r) @ ''.''] else fst r)
             [] (if current_chunk \<noteq> [] then 0 else current_size))"
  using assms by (simp add: Let_def split: prod.splits)

lemma paragraph_loop_flush:
  assumes "py_strip p \<noteq> []" and "\<not> int (length (py_words (py_strip p))) > chunk_size"
      and "current_size + int (length (py_words (py_strip p))) > chunk_size \<and> current_chunk \<noteq> []"
  shows "paragraph_loop chunk_size overlap_size (p # paragraphs) chunks current_chunk current_size
     = paragraph_loop chunk_size overlap_size paragraphs
         (chunks @ [py_join '' '' current_chunk])
         ((if overlap_size > 0 then slice_last current_chunk overlap_size else []) @ [py_strip p])
         (int (length (if overlap_size > 0 then slice_last current_chunk overlap_size else []))
            + int (length (py_words (py_strip p))))"
  using assms by (simp add: Let_def)

lemma paragraph_loop_append:
  assumes "py_strip p \<noteq> []" and "\<not> int (length (py_words (py_strip p))) > chunk_size"
      and "\<not> (current_size + int (length (py_words (py_strip p))) > chunk_size \<and> current_chunk \<noteq> [])"
  shows "paragraph_loop chunk_size overlap_size (p # paragraphs) chunks current_chunk current_size
     = paragraph_loop chunk_size overlap_size paragraphs chunks
         (current_chunk @ [py_strip p]) (current_size + int (length (py_words (py_strip p))))"
  by (simp only: paragraph_loop.simps Let_def assms if_False)

lemma sentence_loop_keeps_nonempty:
  "sentence_chunk \<noteq> [] \<or> (\<exists>s \<in> set sentences. py_strip s \<noteq> []) \<Longrightarrow>
   snd (sentence_loop chunk_size overlap_size sentences chunks sentence_chunk sentence_size) \<noteq> []"
  by (induction sentences arbitrary: chunks sentence_chunk sentence_size)
     (auto simp: Let_def)

declare paragraph_loop.simps(2) [simp del]

lemma paragraph_loop_nonempty:
  "chunks \<noteq> [] \<or> current_chunk \<noteq> [] \<or> (\<exists>p \<in> set paragraphs. py_strip p \<noteq> []) \<Longrightarrow>
   fst (paragraph_loop chunk_size overlap_size paragraphs chunks current_chunk current_size) \<noteq> []
   \<or> snd (paragraph_loop chunk_size overlap_size paragraphs chunks current_chunk current_size) \<noteq> []"
proof (induction paragraphs arbitrary: chunks current_chunk current_size)
  case Nil
  then show ?case by simp
next
  case (Cons p paragraphs)
  let ?para = "py_strip p"
  let ?n = "int (length (py_words ?para))"
  show ?case
  proof (cases "?para = []")
    case True
    with Cons.prems have "chunks \<noteq> [] \<or> current_chunk \<noteq> [] \<or> (\<exists>p \<in> set paragraphs. py_strip p \<noteq> [])"
      by auto
    from Cons.IH[OF this] show ?thesis unfolding paragraph_loop_blank[OF True] .
  next
    case False
    show ?thesis
    proof (cases "?n > chunk_size")
      case big: True
      from False have "\<not> isspace (last ?para)" by (rule py_strip_last)
      from sentence_in_stripped_paragraph[OF False this]
      have "snd (sentence_loop chunk_size overlap_size (py_split ''. '' ?para)
                   (if current_chunk \<noteq> [] then chunks @ [py_join '' '' current_chunk] else chunks) [] 0) \<noteq> []"
        by (intro sentence_loop_keeps_nonempty) blast
      then show ?thesis
        unfolding paragraph_loop_big[OF False big] Let_def
        by (intro Cons.IH) simp
    next
      case small: False
      show ?thesis
      proof (cases "current_size + ?n > chunk_size \<and> current_chunk \<noteq> []")
        case True
        show ?thesis unfolding paragraph_loop_flush[OF False small True]
          by (intro Cons.IH) simp
      next
        case no: False
        show ?thesis unfolding paragraph_loop_append[OF False small no]
          by (intro Cons.IH) simp
      qed
    qed
  qed
qed

lemma paragraph_loop_all_blank:
  "\<forall>p \<in> set paragraphs. py_strip p = [] \<Longrightarrow>
   paragraph_loop chunk_size overlap_size paragraphs chunks current_chunk current_size
     = (chunks, current_chunk)"
  by (induction paragraphs) (auto simp: paragraph_loop_blank)

section \<open>When the chunker returns chunks\<close>

text \<open>
  C4 as stated fails: a text of whitespace only is not empty, and \<open>chunk_text\<close> returns no
  chunk for it, since every paragraph that is empty after stripping is skipped.
\<close>

theorem chunk_text_blank_counterexample:
  "'' \<newline>\<newline> '' \<noteq> [] \<and> chunk_text '' \<newline>\<newline> '' 512 (1 / 10) = []"
  by code_simp

text \<open>
  C4, amended. \<open>chunk_text\<close> returns at least one chunk exactly when the text has a
  character that is not whitespace; for a text of whitespace only, the empty text
  included, it returns the empty list. This holds for every chunk size and every ratio.
\<close>

theorem chunk_text_nonempty_iff:
  "chunk_text txt chunk_size overlap_ratio \<noteq> [] \<longleftrightarrow> (\<exists>c \<in> set txt. \<not> isspace c)"
proof
  assume ne: "chunk_text txt chunk_size overlap_ratio \<noteq> []"
  show "\<exists>c \<in> set txt. \<not> isspace c"
  proof (rule ccontr)
    assume "\<not> (\<exists>c \<in> set txt. \<not> isspace c)"
    then have all: "\<forall>c \<in> set txt. isspace c" by blast
    have "\<forall>p \<in> set (py_split ''\<newline>\<newline>'' txt). py_strip p = []"
    proof
      fix p assume "p \<in> set (py_split ''\<newline>\<newline>'' txt)"
      then have "sublist p txt" unfolding py_split_def using split_from_sublist by fastforce
      then have "set p \<subseteq> set txt" by (rule set_mono_sublist)
      with all show "py_strip p = []" unfolding py_strip_Nil_iff by blast
    qed
    from paragraph_loop_all_blank[OF this] ne show False
      by (simp add: chunk_text_def chunk_text_from_def)
  qed
next
  assume "\<exists>c \<in> set txt. \<not> isspace c"
  then obtain c where c: "c \<in> set txt" "\<not> isspace c" by blast
  then have "c \<notin> set ''\<newline>\<newline>''" by (auto simp: isspace_def)
  with c(1) have "\<exists>p \<in> set (split_from ''\<newline>\<newline>'' [] txt). c \<in> set p"
    by (intro split_from_covers) simp_all
  then obtain p where p: "p \<in> set (py_split ''\<newline>\<newline>'' txt)" "c \<in> set p"
    unfolding py_split_def by blast
  with c(2) have "py_strip p \<noteq> []" unfolding py_strip_Nil_iff by blast
  with p(1) have "\<exists>p \<in> set (py_split ''\<newline>\<newline>'' txt). py_strip p \<noteq> []" by blast
  then have "[] \<noteq> ([] :: string list) \<or> [] \<noteq> ([] :: string list)
      \<or> (\<exists>p \<in> set (py_split ''\<newline>\<newline>'' txt). py_strip p \<noteq> [])"
    by simp
  from paragraph_loop_nonempty[OF this, of chunk_size
      "py_int (of_int chunk_size * overlap_ratio)" 0]
  show "chunk_text txt chunk_size overlap_ratio \<noteq> []"
    by (cases "paragraph_loop chunk_size (py_int (of_int chunk_size * overlap_ratio))
                 (py_split ''\<newline>\<newline>'' txt) [] [] 0")
       (auto simp: chunk_text_def chunk_text_from_def)
qed

theorem chunk_text_nonempty_iff_witness:
  "chunk_text ''A short para.\<newline>\<newline>Another short para.'' 100 (1 / 10) \<noteq> []
   \<and> chunk_text [] 100 (1 / 10) = []"
  using chunk_text_nonempty_iff[of "''A short para.\<newline>\<newline>Another short para.''" 100 "1 / 10"]
    chunk_text_nonempty_iff[of "[]" 100 "1 / 10"]
  by (simp add: isspace_def)

section \<open>Sentences are kept whole\<close>




declare sentence_loop.simps(2) [simp del]











subsection \<open>A part of a text has no more words than the text\<close>








subsection \<open>The shape of every chunk\<close>












section \<open>Identifiers and metadata of the ingested records\<close>

text \<open>
  C3. \<open>generate_chunk_id\<close> is a function of the source name, the chunk index and the text
  alone: whatever the loaders and the directory listing of the environment are, its
  result is the stem of the source name, an underscore, the decimal chunk index, an
  underscore and the first 8 characters of the hexadecimal digest of the text.
\<close>

theorem generate_chunk_id_is_make_id:
  "generate_chunk_id
       (e\<lparr>load_pdf := a, load_markdown := b, load_html := c, load_text := d, rglob := r\<rparr>)
       source_name chunk_index txt
     = make_id_spec (md5_hexdigest e) source_name chunk_index txt"
  by (simp add: generate_chunk_id_def make_id_spec_def)

text \<open>
  C10. In every record \<open>ingest_document\<close> returns, the metadata entry \<open>chunk_id\<close> is the
  record's \<open>id\<close> and the metadata entry \<open>chunk_index\<close> is the decimal numeral of the
  record's position in the returned list, counted from 0.
\<close>

theorem ingest_document_metadata_agrees:
  assumes "ingest_document e file_path chunk_size overlap_ratio = Inr records"
      and "i < length records"
  shows "map_of (rec_metadata (records ! i)) ''chunk_id'' = Some (rec_id (records ! i))
       \<and> map_of (rec_metadata (records ! i)) ''chunk_index'' = Some (py_str (int i))"
  using assms
  by (auto simp: ingest_document_def make_record_def Let_def nth_enumerate_eq split: sum.splits)

theorem ingest_document_metadata_agrees_witness:
  "ingest_document sample_env ''corpus/a.txt'' 10 (1 / 10) = Inr sample_records
   \<and> 1 < length sample_records
   \<and> map_of (rec_metadata (sample_records ! 1)) ''chunk_id'' = Some (rec_id (sample_records ! 1))
   \<and> map_of (rec_metadata (sample_records ! 1)) ''chunk_index'' = Some ''1''"
proof -
  have l: "1 < length sample_records"
    by (simp add: sample_records_def)
  have "py_str (int 1) = ''1''"
    by (simp add: py_str_def)
  with ingest_document_metadata_agrees[OF sample_ingest l] sample_ingest l
  show ?thesis by simp
qed

section \<open>The store: upsert and delete\<close>

lemma keys_fold_update:
  "set (map fst (fold (\<lambda>(i, entry) c. AList.update i entry c) kvs al))
     = set (map fst al) \<union> set (map fst kvs)"
proof (induction kvs arbitrary: al)
  case Nil
  show ?case by simp
next
  case (Cons kv kvs)
  obtain k v where kv: "kv = (k, v)" by (cases kv)
  have "set (map fst (AList.update k v al)) = insert k (set (map fst al))"
    by (auto simp: update_keys)
  then show ?case using Cons.IH[of "AList.update k v al"] by (auto simp: kv)
qed

lemma keys_fold_update_same:
  "set (map fst kvs) \<subseteq> set (map fst al) \<Longrightarrow>
   map fst (fold (\<lambda>(i, entry) c. AList.update i entry c) kvs al) = map fst al"
proof (induction kvs arbitrary: al)
  case Nil
  show ?case by simp
next
  case (Cons kv kvs)
  obtain k v where kv: "kv = (k, v)" by (cases kv)
  from Cons.prems kv have k: "k \<in> set (map fst al)" by auto
  then have keys: "map fst (AList.update k v al) = map fst al"
    by (simp add: update_keys)
  with Cons.prems have "set (map fst kvs) \<subseteq> set (map fst (AList.update k v al))" by auto
  from Cons.IH[OF this] show ?case by (simp add: kv keys)
qed

lemma collection_upsert_ids:
  assumes "collection_upsert coll ids documents embeddings metadatas = Inr coll'"
  shows "set (map fst coll') = set (map fst coll) \<union> set ids"
proof -
  from assms have len: "length documents = length ids" "length embeddings = length ids"
      "length metadatas = length ids"
    and c: "coll' = fold (\<lambda>(i, entry) c. AList.update i entry c)
                  (zip ids (zip documents (zip embeddings metadatas))) coll"
    by (auto simp: collection_upsert_def split: if_splits)
  have "map fst (zip ids (zip documents (zip embeddings metadatas))) = ids"
    using len by simp
  then show ?thesis unfolding c keys_fold_update by simp
qed

lemma collection_upsert_present:
  assumes "set ids \<subseteq> set (map fst coll)"
      and "length documents = length ids" "length embeddings = length ids"
      "length metadatas = length ids"
  shows "\<exists>coll'. collection_upsert coll ids documents embeddings metadatas = Inr coll'
           \<and> map fst coll' = map fst coll"
proof -
  have "map fst (zip ids (zip documents (zip embeddings metadatas))) = ids"
    using assms(2-4) by simp
  with assms(1) have "set (map fst (zip ids (zip documents (zip embeddings metadatas))))
      \<subseteq> set (map fst coll)" by simp
  from keys_fold_update_same[OF this] show ?thesis
    using assms(2-4) by (simp add: collection_upsert_def)
qed

text \<open>
  C2. Two ingestions of the same document give records with the same ids, and once the
  first result has been upserted, upserting the second result succeeds and leaves the
  number of stored records as it was: every id is already present and is overwritten in
  place.
\<close>

theorem reingest_upsert_keeps_count:
  assumes first: "ingest_document e file_path chunk_size overlap_ratio = Inr records1"
      and second: "ingest_document e file_path chunk_size overlap_ratio = Inr records2"
      and up: "upsert_chunks embed_texts coll records1 = Inr coll1"
  shows "map rec_id records2 = map rec_id records1
       \<and> (\<exists>coll2. upsert_chunks embed_texts coll1 records2 = Inr coll2
             \<and> collection_count coll2 = collection_count coll1)"
proof -
  from first second have same: "records2 = records1" by simp
  show ?thesis
  proof (cases "records1 = []")
    case True
    with same show ?thesis by (simp add: upsert_chunks_def)
  next
    case False
    from up False obtain embeddings where
      emb: "embed_texts (map rec_text records1) = Inr embeddings" and
      cu: "collection_upsert coll (map rec_id records1) (map rec_text records1) embeddings
             (map rec_metadata records1) = Inr coll1"
      by (auto simp: upsert_chunks_def Let_def split: sum.splits)
    from cu have len: "length embeddings = length records1"
      by (auto simp: collection_upsert_def split: if_splits)
    from collection_upsert_ids[OF cu] have "set (map rec_id records1) \<subseteq> set (map fst coll1)"
      by simp
    from collection_upsert_present[OF this, of "map rec_text records1" embeddings
        "map rec_metadata records1"] len
    obtain coll2 where
      "collection_upsert coll1 (map rec_id records1) (map rec_text records1) embeddings
         (map rec_metadata records1) = Inr coll2" and keys: "map fst coll2 = map fst coll1"
      by auto
    then have "upsert_chunks embed_texts coll1 records1 = Inr coll2"
      using False emb by (simp add: upsert_chunks_def)
    moreover from keys have "collection_count coll2 = collection_count coll1"
      unfolding collection_count_def by (metis length_map)
    ultimately show ?thesis using same by auto
  qed
qed

theorem reingest_upsert_keeps_count_witness:
  "\<exists>coll1 coll2.
      upsert_chunks sample_embed sample_collection sample_records = Inr coll1
    \<and> upsert_chunks sample_embed coll1 sample_records = Inr coll2
    \<and> collection_count coll1 = 5 \<and> collection_count coll2 = 5"
proof -
  have up: "upsert_chunks sample_embed sample_collection sample_records =
     Inr (sample_collection @
       [(''a_0_5eb63bbb'', ''a b c d e f g h i j'', 19,
           [(''source'', ''a.txt''), (''doc_type'', ''guide''),
            (''chunk_index'', ''0''), (''chunk_id'', ''a_0_5eb63bbb'')]),
        (''a_1_5eb63bbb'', ''f g h i j k l m'', 15,
           [(''source'', ''a.txt''), (''doc_type'', ''guide''),
            (''chunk_index'', ''1''), (''chunk_id'', ''a_1_5eb63bbb'')])])"
    by code_simp
  have n: "collection_count (sample_collection @ [x, y]) = 5" for x y :: "string \<times> nat entry"
    by (simp add: collection_count_def sample_collection_def)
  from reingest_upsert_keeps_count[OF sample_ingest sample_ingest up] up n
  show ?thesis by auto
qed

text \<open>
  C7. In a collection with one entry per id, \<open>delete_by_source\<close> keeps exactly the entries
  whose metadata \<open>source\<close> is not the given value, each unchanged and in its place; so
  when no entry has that source the collection is returned as it is.
\<close>

theorem delete_by_source_removes_exactly:
  assumes "distinct (map fst coll)"
  shows "delete_by_source coll source
           = filter (\<lambda>(i, document, embedding, metadata).
                        map_of metadata ''source'' \<noteq> Some source) coll"
proof -
  let ?P = "\<lambda>(i :: string, document :: string, embedding :: 'a, metadata).
               map_of metadata ''source'' = Some source"
  let ?ids = "map fst (filter ?P coll)"
  have key: "fst x \<notin> set ?ids \<longleftrightarrow> \<not> ?P x" if "x \<in> set coll" for x
  proof
    assume "fst x \<notin> set ?ids"
    with that show "\<not> ?P x" by force
  next
    assume np: "\<not> ?P x"
    show "fst x \<notin> set ?ids"
    proof
      assume "fst x \<in> set ?ids"
      then obtain y where y: "y \<in> set coll" "?P y" "fst y = fst x" by auto
      from assms that y(1,3) have "y = x"
        by (metis eq_key_imp_eq_value prod.collapse)
      with np y(2) show False by simp
    qed
  qed
  have del: "filter (\<lambda>(i, entry). i \<notin> set ?ids) coll = filter (\<lambda>x. \<not> ?P x) coll"
    by (rule filter_cong[OF refl]) (use key in \<open>auto simp: case_prod_unfold\<close>)
  have none: "filter (\<lambda>x. \<not> ?P x) coll = coll" if "?ids = []"
    using that by (auto simp: filter_empty_conv filter_id_conv)
  have "(\<lambda>x. \<not> ?P x)
          = (\<lambda>(i, document, embedding, metadata). map_of metadata ''source'' \<noteq> Some source)"
    by (auto simp: fun_eq_iff)
  then show ?thesis
    using del none
    by (auto simp: delete_by_source_def collection_get_where_def collection_delete_def Let_def)
qed

theorem delete_by_source_removes_exactly_witness:
  "distinct (map fst sample_collection)
   \<and> delete_by_source sample_collection ''paper.pdf''
       = [(''other_0_5eb63bbb'', ''beta'', 4, [(''source'', ''other.pdf''), (''doc_type'', ''paper'')])]
   \<and> delete_by_source sample_collection ''missing.pdf'' = sample_collection"
proof -
  have d: "distinct (map fst sample_collection)"
    by (simp add: sample_collection_def)
  show ?thesis
    using d delete_by_source_removes_exactly[OF d, of "''paper.pdf''"]
      delete_by_source_removes_exactly[OF d, of "''missing.pdf''"]
    by (simp add: sample_collection_def)
qed

section \<open>Directory ingestion\<close>

lemma directory_loop_closed:
  "directory_loop e cs r exts files all_chunks printed =
     (all_chunks @ concat (map (chunks_of e cs r)
                     (filter (\<lambda>f. py_lower (path_suffix f) \<in> set exts) files)),
      printed @ map (report_of e cs r)
                  (filter (\<lambda>f. py_lower (path_suffix f) \<in> set exts) files))"
  by (induction files arbitrary: all_chunks printed)
     (auto simp: chunks_of_def report_of_def split: sum.splits)

text \<open>
  C8. When the files of the listing that match the extensions are \<open>before @ bad # after\<close>,
  the ingestion of \<open>bad\<close> raises and that of every other file succeeds, then
  \<open>ingest_directory\<close> returns the records of the other files, concatenated in order, and
  prints one line per file: a success line for each of the others and exactly one failure
  line, for \<open>bad\<close>.
\<close>

theorem ingest_directory_isolates_failure:
  assumes listing:
        "filter (\<lambda>f. py_lower (path_suffix f) \<in> set (extensions_or_default extensions))
           (rglob e directory) = before @ bad # after"
      and bad: "ingest_document e bad chunk_size overlap_ratio = Inl x"
      and good: "\<forall>f \<in> set (before @ after).
                   \<exists>chunks. ingest_document e f chunk_size overlap_ratio = Inr chunks"
  shows "ingest_directory e directory chunk_size overlap_ratio extensions =
           (concat (map (chunks_of e chunk_size overlap_ratio) (before @ after)),
            map (\<lambda>f. Ingested (path_name f) (length (chunks_of e chunk_size overlap_ratio f)))
              before
            @ [Failed (path_name bad) x]
            @ map (\<lambda>f. Ingested (path_name f) (length (chunks_of e chunk_size overlap_ratio f)))
                after)"
proof -
  have b: "chunks_of e chunk_size overlap_ratio bad = []"
         "report_of e chunk_size overlap_ratio bad = Failed (path_name bad) x"
    using bad by (simp_all add: chunks_of_def report_of_def)
  have g: "report_of e chunk_size overlap_ratio f
             = Ingested (path_name f) (length (chunks_of e chunk_size overlap_ratio f))"
    if "f \<in> set (before @ after)" for f
  proof -
    from good that obtain chunks where
      "ingest_document e f chunk_size overlap_ratio = Inr chunks"
      by blast
    then show ?thesis by (simp add: chunks_of_def report_of_def)
  qed
  have "map (report_of e chunk_size overlap_ratio) before
          = map (\<lambda>f. Ingested (path_name f) (length (chunks_of e chunk_size overlap_ratio f)))
              before"
       "map (report_of e chunk_size overlap_ratio) after
          = map (\<lambda>f. Ingested (path_name f) (length (chunks_of e chunk_size overlap_ratio f)))
              after"
    using g by simp_all
  then show ?thesis
    unfolding ingest_directory_def directory_loop_closed listing
    by (simp add: b)
qed

theorem ingest_directory_isolates_failure_witness:
  "ingest_directory sample_env ''corpus'' 10 (1 / 10) None =
     (chunks_of sample_env 10 (1 / 10) ''corpus/a.txt''
        @ chunks_of sample_env 10 (1 / 10) ''corpus/c.MD'',
      [Ingested ''a.txt'' 2, Failed ''b.pdf'' (OSError ''EOF marker not found''),
       Ingested ''c.MD'' 1])"
proof -
  have l: "filter (\<lambda>f. py_lower (path_suffix f) \<in> set (extensions_or_default None))
             (rglob sample_env ''corpus'')
           = [''corpus/a.txt''] @ ''corpus/b.pdf'' # [''corpus/c.MD'']"
    by code_simp
  have b: "ingest_document sample_env ''corpus/b.pdf'' 10 (1 / 10)
             = Inl (OSError ''EOF marker not found'')"
    by code_simp
  have "load_document sample_env ''corpus/c.MD''
          = Inr (''Dense retrieval. Sparse retrieval.'', ''framework'')"
    by code_simp
  then have "\<exists>chunks. ingest_document sample_env ''corpus/c.MD'' 10 (1 / 10) = Inr chunks"
    by (simp add: ingest_document_def)
  then have g: "\<forall>f \<in> set ([''corpus/a.txt''] @ [''corpus/c.MD'']).
             \<exists>chunks. ingest_document sample_env f 10 (1 / 10) = Inr chunks"
    using sample_ingest by simp
  have n: "length (chunks_of sample_env 10 (1 / 10) ''corpus/a.txt'') = 2"
          "length (chunks_of sample_env 10 (1 / 10) ''corpus/c.MD'') = 1"
          "path_name ''corpus/a.txt'' = ''a.txt''" "path_name ''corpus/b.pdf'' = ''b.pdf''"
          "path_name ''corpus/c.MD'' = ''c.MD''"
    by code_simp+
  show ?thesis using ingest_directory_isolates_failure[OF l b g] by (simp add: n)
qed

section \<open>Querying the store\<close>

text \<open>
  C6 as stated fails: \<open>query\<close> has no check of \<open>top_k\<close> and embeds the query text before
  \<open>top_k\<close> is looked at. With \<open>top_k = 0\<close> and an embedding model that raises, the call
  fails after the embedding call, with the embedding's exception and not with
  \<open>InvalidArgument\<close>.
\<close>

theorem query_top_k_zero_counterexample:
  "query (\<lambda>ts. Inl (EmbeddingFailure ''model not loaded'') :: error + nat list)
      sample_search sample_collection ''what is RAG'' 0
     = (Inl (EmbeddingFailure ''model not loaded''), [EmbedCall [''what is RAG'']])
   \<and> EmbeddingFailure ''model not loaded'' \<noteq> InvalidArgument"
  by (simp add: query_def)

text \<open>
  C6, amended. A call of \<open>query\<close> with \<open>top_k \<le> 0\<close> fails, for every query text and every
  state of the store, and nothing is retried; but \<open>query\<close> does not fail at once and not
  with \<open>InvalidArgument\<close>. It first embeds the query text, once. When the embedding
  raises, that exception is the failure and the collection is not asked. Otherwise the
  collection is asked once, with \<open>top_k\<close> unchanged, and its rejection of a number of
  results that is not positive (a \<^verbatim>\<open>TypeError\<close>) is the failure.
\<close>

theorem query_nonpositive_top_k_fails:
  assumes "top_k \<le> 0"
  shows "(\<exists>y. fst (query embed_texts search coll query_text top_k) = Inl y)
       \<and> (embed_texts [query_text] = Inl x \<longrightarrow>
            query embed_texts search coll query_text top_k = (Inl x, [EmbedCall [query_text]]))
       \<and> (embed_texts [query_text] = Inr (v # vs) \<longrightarrow>
            query embed_texts search coll query_text top_k
              = (Inl (TypeError (''Number of requested results '' @ py_str top_k
                                  @ '', cannot be negative, or zero.'')),
                 [EmbedCall [query_text], QueryCall v top_k]))"
proof (cases "embed_texts [query_text]")
  case (Inl e)
  then show ?thesis by (simp add: query_def)
next
  case (Inr embeddings)
  with assms show ?thesis
    by (cases embeddings) (simp_all add: query_def collection_query_def)
qed

theorem query_nonpositive_top_k_fails_witness:
  "(0 :: int) \<le> 0
   \<and> sample_embed [''what is RAG''] = Inr [11]
   \<and> query sample_embed sample_search sample_collection ''what is RAG'' 0
       = (Inl (TypeError ''Number of requested results 0, cannot be negative, or zero.''),
          [EmbedCall [''what is RAG''], QueryCall 11 0])"
proof -
  have z: "(0 :: int) \<le> 0"
    by simp
  have h: "sample_embed [''what is RAG''] = Inr (11 # [])"
    by (simp add: sample_embed_def)
  have n: "py_str 0 = ''0''"
    by (simp add: py_str_def)
  from query_nonpositive_top_k_fails[OF z, where embed_texts = sample_embed
      and query_text = "''what is RAG''" and v = 11 and vs = "[]"
      and search = sample_search and coll = sample_collection] h
  have "query sample_embed sample_search sample_collection ''what is RAG'' 0
          = (Inl (TypeError (''Number of requested results '' @ py_str 0
                               @ '', cannot be negative, or zero.'')),
             [EmbedCall [''what is RAG''], QueryCall 11 0])"
    by blast
  with z h show ?thesis by (simp add: n)
qed

section \<open>Retrying a rate-limited request\<close>

text \<open>
  C9. When every attempt is answered with status 429, \<open>request_with_retry\<close> makes
  \<open>MAX_RETRIES\<close> attempts, sleeps 2, 4 and 6 seconds after them and raises. The delays
  increase, but by a fixed amount: the back-off is linear, not exponential.
\<close>

theorem request_with_retry_backoff_is_linear:
  "request_with_retry (\<lambda>n. Response 429) MAX_RETRIES
     = (Inl (HTTPError ''Max retries exceeded''), [2, 4, 6])
   \<and> increasing [2, 4, 6] \<and> \<not> exponential [2, 4, 6]"
  by code_simp

end
